theory Spec2Isabelle
  imports Main "HOL-Library.AList"
begin

section \<open>Python strings\<close>

text \<open>
  The server works on Python \<open>str\<close> values, sequences of Unicode code points. A
  \<^typ>\<open>char\<close> stands here for one code point in the range U+0000..U+00FF, and
  \<^typ>\<open>string\<close> for a text made of such code points; texts with code points beyond
  U+00FF are outside this development. The character classes below are those of
  CPython on that range.
\<close>

definition code :: "char \<Rightarrow> nat" where
  "code c = of_char c"

definition isspace :: "char \<Rightarrow> bool" where
  \<comment> \<open>\<open>str.isspace\<close> on one character: what \<open>strip\<close> and \<open>split\<close> remove.\<close>
  "isspace c = (let n = code c in
     (9 \<le> n \<and> n \<le> 13) \<or> (28 \<le> n \<and> n \<le> 32) \<or> n = 133 \<or> n = 160)"

definition is_linebreak :: "char \<Rightarrow> bool" where
  \<comment> \<open>the line boundaries of \<open>str.splitlines\<close>\<close>
  "is_linebreak c = (let n = code c in
     (10 \<le> n \<and> n \<le> 13) \<or> (28 \<le> n \<and> n \<le> 30) \<or> n = 133)"

definition is_upper_ascii :: "char \<Rightarrow> bool" where
  "is_upper_ascii c = (let n = code c in 65 \<le> n \<and> n \<le> 90)"

definition is_lower_ascii :: "char \<Rightarrow> bool" where
  "is_lower_ascii c = (let n = code c in 97 \<le> n \<and> n \<le> 122)"

definition is_digit_ascii :: "char \<Rightarrow> bool" where
  "is_digit_ascii c = (let n = code c in 48 \<le> n \<and> n \<le> 57)"

definition ident_start :: "char \<Rightarrow> bool" where
  \<comment> \<open>the class \<open>[a-zA-Z_]\<close>\<close>
  "ident_start c = (is_lower_ascii c \<or> is_upper_ascii c \<or> c = CHR ''_'')"

definition ident_char :: "char \<Rightarrow> bool" where
  \<comment> \<open>the class \<open>[a-zA-Z0-9_]\<close>\<close>
  "ident_char c = (is_lower_ascii c \<or> is_upper_ascii c \<or> is_digit_ascii c \<or> c = CHR ''_'')"

definition is_word_char :: "char \<Rightarrow> bool" where
  \<comment> \<open>\<open>\w\<close> of the \<open>re\<close> module on \<open>str\<close>: alphanumeric in Unicode's sense, or the
      underscore. Beyond ASCII this takes in the Latin-1 letters, the superscript
      digits and the vulgar fractions.\<close>
  "is_word_char c = (let n = code c in
     ident_char c \<or> n = 170 \<or> n = 178 \<or> n = 179 \<or> n = 181 \<or> n = 185 \<or> n = 186
     \<or> (188 \<le> n \<and> n \<le> 190) \<or> (192 \<le> n \<and> n \<le> 214) \<or> (216 \<le> n \<and> n \<le> 246)
     \<or> (248 \<le> n \<and> n \<le> 255))"

definition upper_char :: "char \<Rightarrow> string" where
  \<comment> \<open>\<open>str.upper\<close> on one character. The sharp s (U+00DF) becomes two letters. The micro
      sign (U+00B5) and y with diaeresis (U+00FF) have their capitals beyond U+00FF and
      are left as they are: every comparison of the program is against ASCII text, which
      neither choice can equal.\<close>
  "upper_char c = (let n = code c in
     if is_lower_ascii c then [char_of (n - 32)]
     else if n = 223 then ''SS''
     else if (224 \<le> n \<and> n \<le> 246) \<or> (248 \<le> n \<and> n \<le> 254) then [char_of (n - 32)]
     else [c])"

definition upper :: "string \<Rightarrow> string" where
  "upper s = concat (map upper_char s)"

definition lower_char :: "char \<Rightarrow> char" where
  "lower_char c = (let n = code c in
     if is_upper_ascii c \<or> (192 \<le> n \<and> n \<le> 214) \<or> (216 \<le> n \<and> n \<le> 222)
     then char_of (n + 32) else c)"

definition lower :: "string \<Rightarrow> string" where
  "lower s = map lower_char s"

definition strip :: "string \<Rightarrow> string" where
  \<comment> \<open>\<open>str.strip()\<close>: whitespace removed at both ends\<close>
  "strip s = rev (dropWhile isspace (rev (dropWhile isspace s)))"

definition startswith :: "string \<Rightarrow> string \<Rightarrow> bool" where
  "startswith s p = (take (length p) s = p)"

fun splitlines_from :: "bool \<Rightarrow> string \<Rightarrow> string \<Rightarrow> string list" where
  "splitlines_from keepends cur [] = (if cur = [] then [] else [cur])"
| "splitlines_from keepends cur [c] =
     (if is_linebreak c then [cur @ (if keepends then [c] else [])]
      else [cur @ [c]])"
| "splitlines_from keepends cur (c # d # cs) =
     (if is_linebreak c then
        (if c = CHR 0x0D \<and> d = CHR 0x0A
         then (cur @ (if keepends then [c, d] else [])) # splitlines_from keepends [] cs
         else (cur @ (if keepends then [c] else [])) # splitlines_from keepends [] (d # cs))
      else splitlines_from keepends (cur @ [c]) (d # cs))"

definition splitlines :: "bool \<Rightarrow> string \<Rightarrow> string list" where
  \<comment> \<open>\<open>str.splitlines(keepends)\<close>: a carriage return followed by a line feed is one
      boundary; a text that ends in a boundary has no empty last line.\<close>
  "splitlines keepends s = splitlines_from keepends [] s"

fun split_ws :: "nat \<Rightarrow> string \<Rightarrow> string list" where
  \<comment> \<open>\<open>str.split(maxsplit=n)\<close> on runs of whitespace: at most \<open>n\<close> words are cut off,
      and what is left after them, less its leading whitespace, is the last part.\<close>
  "split_ws 0 s = (let r = dropWhile isspace s in if r = [] then [] else [r])"
| "split_ws (Suc n) s = (let r = dropWhile isspace s in
     if r = [] then []
     else takeWhile (\<lambda>c. \<not> isspace c) r # split_ws n (dropWhile (\<lambda>c. \<not> isspace c) r))"

fun find_from :: "nat \<Rightarrow> string \<Rightarrow> string \<Rightarrow> int" where
  "find_from i [] sub = (if sub = [] then int i else - 1)"
| "find_from i (c # cs) sub =
     (if take (length sub) (c # cs) = sub then int i else find_from (Suc i) cs sub)"

definition find :: "string \<Rightarrow> string \<Rightarrow> int" where
  \<comment> \<open>\<open>str.find(sub)\<close>: the lowest index where \<open>sub\<close> occurs, or -1\<close>
  "find s sub = find_from 0 s sub"


section \<open>The identifier pattern\<close>

text \<open>
  Both passes and both position queries scan a line with
  \<^verbatim>\<open>re.finditer(r'\b([a-zA-Z_][a-zA-Z0-9_]*)\b', line)\<close>. A match is kept as its start, its
  end (exclusive) and the text of group 1.
\<close>

type_synonym match = "nat \<times> nat \<times> string"

definition word_boundary :: "string \<Rightarrow> nat \<Rightarrow> bool" where
  \<comment> \<open>\<open>\b\<close> at position \<open>p\<close>: exactly one of the characters before and after is a word
      character; beyond either end of the string there is none.\<close>
  "word_boundary s p =
     ((0 < p \<and> is_word_char (s ! (p - 1))) \<noteq> (p < length s \<and> is_word_char (s ! p)))"

definition match_at :: "string \<Rightarrow> nat \<Rightarrow> nat option" where
  \<comment> \<open>The pattern tried at position \<open>p\<close>; the result is the end of the match. The star is
      greedy: it takes every identifier character there is, and gives them back one by
      one until \<open>\b\<close> holds.\<close>
  "match_at s p =
     (if word_boundary s p \<and> p < length s \<and> ident_start (s ! p)
      then (let m = length (takeWhile ident_char (drop (Suc p) s))
            in List.find (word_boundary s) (rev [Suc p ..< Suc (Suc p + m)]))
      else None)"

function finditer_from :: "string \<Rightarrow> nat \<Rightarrow> match list" where
  "finditer_from s pos =
     (if length s < pos then []
      else case match_at s pos of
             None \<Rightarrow> finditer_from s (Suc pos)
           | Some e \<Rightarrow> (pos, e, take (e - pos) (drop pos s)) # finditer_from s (max e (Suc pos)))"
  by pat_completeness auto
termination
  by (relation "measure (\<lambda>(s, pos). Suc (length s) - pos)") auto

declare finditer_from.simps [simp del]

definition finditer :: "string \<Rightarrow> match list" where
  \<comment> \<open>The search resumes where the last match ended (a match of this pattern is never
      empty, so \<open>max\<close> changes nothing; it is what makes the recursion visibly end).\<close>
  "finditer s = finditer_from s 0"

section \<open>Reference data and protocol types\<close>

definition KEYWORDS :: "string list" where
  "KEYWORDS = [''VAR'', ''AND'', ''OR'', ''NOT'', ''IF'', ''ELIF'', ''ELSE'', ''FOR'', ''TO'',
     ''STEP'', ''WHILE'', ''FUN'', ''THEN'', ''END'', ''RETURN'', ''CONTINUE'', ''BREAK'']"

definition BUILTIN_FUNCTIONS :: "(string \<times> string) list" where
  \<comment> \<open>a dict literal: the keys in the order written\<close>
  "BUILTIN_FUNCTIONS = [
     (''print'', ''Prints the given values''),
     (''print_ret'', ''Prints and returns the given values''),
     (''input'', ''Gets input from user''),
     (''input_int'', ''Gets integer input from user''),
     (''clear'', ''Clears the screen''),
     (''is_number'', ''Checks if value is a number''),
     (''is_string'', ''Checks if value is a string''),
     (''is_list'', ''Checks if value is a list''),
     (''is_function'', ''Checks if value is a function''),
     (''append'', ''Appends item to list''),
     (''pop'', ''Removes and returns item from list''),
     (''extend'', ''Extends list with another list''),
     (''len'', ''Returns length of collection''),
     (''run'', ''Runs code from string'')]"

datatype py_error = IndexError

datatype diagnostic_severity = Error | Warning | Information | Hint

record position =
  line :: int
  character :: int

record lsp_range =
  range_start :: position
  range_end :: position

record diagnostic =
  diag_range :: lsp_range
  message :: string
  severity :: diagnostic_severity
  source :: string

record location =
  uri :: string
  loc_range :: lsp_range

datatype markup_kind = PlainText | Markdown

record markup_content =
  kind :: markup_kind
  markup_value :: string

record hover_result =
  contents :: markup_content
  hover_range :: "lsp_range option"

datatype completion_item_kind = Variable | Keyword | Function

datatype insert_text_format = Snippet

record completion_item =
  label :: string
  item_kind :: completion_item_kind
  documentation :: string
  detail :: "string option"
  insert_text :: "string option"
  insert_text_format :: "insert_text_format option"

definition Position :: "int \<Rightarrow> int \<Rightarrow> position" where
  "Position l c = \<lparr>line = l, character = c\<rparr>"

definition Range :: "position \<Rightarrow> position \<Rightarrow> lsp_range" where
  "Range s e = \<lparr>range_start = s, range_end = e\<rparr>"

text \<open>
  The symbol table is a Python dict from a name to (line, column, value text). A dict
  keeps its keys in the order of their first insertion, and an assignment to a key it
  already has replaces the value in place: \<^const>\<open>AList.update\<close> on an association list.
\<close>

type_synonym variables = "(string \<times> (int \<times> int \<times> string)) list"

definition getitem :: "'a list \<Rightarrow> int \<Rightarrow> py_error + 'a" where
  \<comment> \<open>\<open>xs[i]\<close> on a list: an index below zero counts back from the end, and an index
      on neither side of the list raises.\<close>
  "getitem xs i =
     (if 0 \<le> i \<and> i < int (length xs) then Inr (xs ! nat i)
      else if i < 0 \<and> - int (length xs) \<le> i then Inr (xs ! nat (int (length xs) + i))
      else Inl IndexError)"

section \<open>The analyzer\<close>

definition declaration_step :: "variables \<Rightarrow> nat \<Rightarrow> string \<Rightarrow> py_error + variables" where
  \<comment> \<open>the body of the first loop of \<open>parse_document\<close>, for one line\<close>
  "declaration_step vars line_num raw =
     (let line = strip raw in
      if startswith (upper line) ''VAR '' then
        (let parts = split_ws 2 line in
         if 2 \<le> length parts then
           (case getitem parts 1 of
              Inl e \<Rightarrow> Inl e
            | Inr var_name \<Rightarrow>
               (case (if 2 < length parts then getitem parts 2 else Inr ''undefined'') of
                  Inl e \<Rightarrow> Inl e
                | Inr var_value \<Rightarrow>
                    Inr (AList.update var_name (int line_num, find line var_name, var_value) vars)))
         else Inr vars)
      else Inr vars)"

fun collect_variables :: "variables \<Rightarrow> (nat \<times> string) list \<Rightarrow> py_error + variables" where
  "collect_variables vars [] = Inr vars"
| "collect_variables vars ((line_num, raw) # rest) =
     (case declaration_step vars line_num raw of
        Inl e \<Rightarrow> Inl e
      | Inr vars' \<Rightarrow> collect_variables vars' rest)"

definition valid_identifiers :: "variables \<Rightarrow> string set" where
  "valid_identifiers vars = set (map fst vars) \<union> set (map fst BUILTIN_FUNCTIONS)"

definition accepted :: "variables \<Rightarrow> string \<Rightarrow> bool" where
  \<comment> \<open>the condition under \<open>not\<close> in the second loop\<close>
  "accepted vars word =
     (word \<in> set KEYWORDS \<or> word \<in> valid_identifiers vars \<or> upper word \<in> set KEYWORDS
      \<or> word \<in> set (map fst BUILTIN_FUNCTIONS))"

definition undefined_identifier :: "nat \<Rightarrow> match \<Rightarrow> diagnostic" where
  "undefined_identifier line_num m = (case m of (col, _, word) \<Rightarrow>
     \<lparr>diag_range = Range (Position (int line_num) (int col))
                          (Position (int line_num) (int col + int (length word))),
      message = ''Undefined identifier: '' @ [CHR 0x27] @ word @ [CHR 0x27],
      severity = Error,
      source = ''MyOPL''\<rparr>)"

definition validate_line :: "variables \<Rightarrow> nat \<Rightarrow> string \<Rightarrow> diagnostic list" where
  \<comment> \<open>the body of the second loop, for one line: the columns are those of the match in
      the stripped line\<close>
  "validate_line vars line_num raw =
     (let line = strip raw in
      if line = [] \<or> startswith line ''//'' then []
      else map (undefined_identifier line_num)
             (filter (\<lambda>m. \<not> accepted vars (snd (snd m))) (finditer line)))"

definition parse_document :: "string \<Rightarrow> py_error + (variables \<times> diagnostic list)" where
  "parse_document text =
     (let lines = splitlines False text in
      case collect_variables [] (enumerate 0 lines) of
        Inl e \<Rightarrow> Inl e
      | Inr vars \<Rightarrow>
          Inr (vars, concat (map (\<lambda>(line_num, raw). validate_line vars line_num raw)
                               (enumerate 0 lines))))"


section \<open>The document store and the handlers\<close>

text \<open>
  \<open>document_states\<close> maps a document identifier to the text last analysed and its symbol
  table; it is never iterated, so a map models it. The position queries read the lines
  from the document of the protocol library's workspace, \<open>doc.lines\<close>, which is
  \<open>source.splitlines(True)\<close>; both notification handlers store that same source in
  \<open>document_states\<close>, so the lines are taken from the stored text.
\<close>

record doc_state =
  doc_text :: string
  doc_variables :: variables

type_synonym document_states = "string \<rightharpoonup> doc_state"

definition did_open ::
  "document_states \<Rightarrow> string \<Rightarrow> string \<Rightarrow> py_error + (document_states \<times> diagnostic list)" where
  \<comment> \<open>the new store and the diagnostics published for the document\<close>
  "did_open states u txt =
     (case parse_document txt of
        Inl e \<Rightarrow> Inl e
      | Inr (vars, diagnostics) \<Rightarrow>
          Inr (states(u \<mapsto> \<lparr>doc_text = txt, doc_variables = vars\<rparr>), diagnostics))"

definition did_change ::
  "document_states \<Rightarrow> string \<Rightarrow> string \<Rightarrow> py_error + (document_states \<times> diagnostic list)" where
  \<comment> \<open>\<open>current_text\<close> is the source of the workspace document after the change\<close>
  "did_change states u current_text =
     (case parse_document current_text of
        Inl e \<Rightarrow> Inl e
      | Inr (vars, diagnostics) \<Rightarrow>
          Inr (states(u \<mapsto> \<lparr>doc_text = current_text, doc_variables = vars\<rparr>), diagnostics))"

definition brackets :: "position \<Rightarrow> match \<Rightarrow> bool" where
  \<comment> \<open>\<open>match.start() <= pos.character <= match.end()\<close>\<close>
  "brackets pos m = (int (fst m) \<le> character pos \<and> character pos \<le> int (fst (snd m)))"

fun definition_scan :: "string \<Rightarrow> variables \<Rightarrow> position \<Rightarrow> match list \<Rightarrow> location option" where
  "definition_scan u vars pos [] = None"
| "definition_scan u vars pos (m # ms) =
     (if brackets pos m then
        (case map_of vars (snd (snd m)) of
           Some (line_num, col, _) \<Rightarrow>
             Some \<lparr>uri = u,
                   loc_range = Range (Position line_num col)
                                     (Position line_num (col + int (length (snd (snd m)))))\<rparr>
         | None \<Rightarrow> definition_scan u vars pos ms)
      else definition_scan u vars pos ms)"

definition definition_handler ::
  "document_states \<Rightarrow> string \<Rightarrow> position \<Rightarrow> py_error + location option" where
  \<comment> \<open>the handler \<open>definition\<close> of the source\<close>
  "definition_handler states u pos =
     (case states u of
        None \<Rightarrow> Inr None
      | Some st \<Rightarrow>
          (case getitem (splitlines True (doc_text st)) (line pos) of
             Inl e \<Rightarrow> Inl e
           | Inr ln \<Rightarrow> Inr (definition_scan u (doc_variables st) pos (finditer ln))))"

definition variable_hover :: "position \<Rightarrow> match \<Rightarrow> string \<Rightarrow> hover_result" where
  "variable_hover pos m var_value =
     \<lparr>contents = \<lparr>kind = Markdown,
                  markup_value = ''**Variable**: `'' @ snd (snd m) @ ''`\<newline>\<newline>**Value**: `''
                                 @ var_value @ ''`''\<rparr>,
      hover_range = Some (Range (Position (line pos) (int (fst m)))
                                (Position (line pos) (int (fst (snd m)))))\<rparr>"

definition builtin_hover :: "string \<Rightarrow> string \<Rightarrow> hover_result" where
  "builtin_hover word description =
     \<lparr>contents = \<lparr>kind = Markdown,
                  markup_value = ''**Built-in function**: `'' @ word @ ''`\<newline>\<newline>'' @ description\<rparr>,
      hover_range = None\<rparr>"

definition keyword_hover :: "string \<Rightarrow> hover_result" where
  "keyword_hover word =
     \<lparr>contents = \<lparr>kind = Markdown, markup_value = ''**Keyword**: `'' @ upper word @ ''`''\<rparr>,
      hover_range = None\<rparr>"

fun hover_scan :: "variables \<Rightarrow> position \<Rightarrow> match list \<Rightarrow> hover_result option" where
  "hover_scan vars pos [] = None"
| "hover_scan vars pos (m # ms) =
     (if brackets pos m then
        (case map_of vars (snd (snd m)) of
           Some (_, _, var_value) \<Rightarrow> Some (variable_hover pos m var_value)
         | None \<Rightarrow>
            (case map_of BUILTIN_FUNCTIONS (snd (snd m)) of
               Some description \<Rightarrow> Some (builtin_hover (snd (snd m)) description)
             | None \<Rightarrow>
                 if upper (snd (snd m)) \<in> set KEYWORDS then Some (keyword_hover (snd (snd m)))
                 else hover_scan vars pos ms))
      else hover_scan vars pos ms)"

definition hover :: "document_states \<Rightarrow> string \<Rightarrow> position \<Rightarrow> py_error + hover_result option" where
  "hover states u pos =
     (case states u of
        None \<Rightarrow> Inr None
      | Some st \<Rightarrow>
          (case getitem (splitlines True (doc_text st)) (line pos) of
             Inl e \<Rightarrow> Inl e
           | Inr ln \<Rightarrow> Inr (hover_scan (doc_variables st) pos (finditer ln))))"

definition variable_item :: "string \<times> (int \<times> int \<times> string) \<Rightarrow> completion_item" where
  "variable_item entry = (case entry of (var_name, _, _, var_value) \<Rightarrow>
     \<lparr>label = var_name, item_kind = Variable,
      documentation = ''Value: '' @ var_value,
      detail = Some (''Variable: '' @ var_name @ '' = '' @ var_value),
      insert_text = None, insert_text_format = None\<rparr>)"

definition keyword_item :: "string \<Rightarrow> completion_item" where
  "keyword_item kw =
     \<lparr>label = kw, item_kind = Keyword, documentation = ''MyOPL keyword'',
      detail = None, insert_text = Some (lower kw), insert_text_format = None\<rparr>"

definition builtin_item :: "string \<times> string \<Rightarrow> completion_item" where
  "builtin_item entry = (case entry of (func, description) \<Rightarrow>
     \<lparr>label = func, item_kind = Function, documentation = description,
      detail = None, insert_text = Some (func @ ''($0)''),
      insert_text_format = Some Snippet\<rparr>)"

definition completions :: "document_states \<Rightarrow> string \<Rightarrow> completion_item list" where
  "completions states u =
     (case states u of
        None \<Rightarrow> []
      | Some st \<Rightarrow> map variable_item (doc_variables st))
     @ map keyword_item KEYWORDS
     @ map builtin_item BUILTIN_FUNCTIONS"


section \<open>Words of a line\<close>

text \<open>
  The words of a line, by runs of whitespace: the first word, the second word, and what
  follows the second word and the whitespace after it. These are the parts that
  \<open>split(maxsplit=2)\<close> cuts a line into.
\<close>

definition first_word :: "string \<Rightarrow> string" where
  "first_word l = takeWhile (\<lambda>c. \<not> isspace c) (dropWhile isspace l)"

definition after_word :: "string \<Rightarrow> string" where
  \<comment> \<open>the line after its first word\<close>
  "after_word l = dropWhile (\<lambda>c. \<not> isspace c) (dropWhile isspace l)"

definition second_word :: "string \<Rightarrow> string" where
  "second_word l = first_word (after_word l)"

definition rest_of_line :: "string \<Rightarrow> string" where
  \<comment> \<open>what follows the second word and the whitespace after it\<close>
  "rest_of_line l = dropWhile isspace (after_word (after_word l))"

definition declared_value_text :: "string \<Rightarrow> string" where
  "declared_value_text l = (if rest_of_line l = [] then ''undefined'' else rest_of_line l)"

definition undefined_message :: "string \<Rightarrow> string" where
  \<comment> \<open>the message of the diagnostic for a word\<close>
  "undefined_message word = ''Undefined identifier: '' @ [CHR 0x27] @ word @ [CHR 0x27]"


section \<open>The first loop, line by line\<close>

text \<open>
  What the first loop of \<open>parse_document\<close> does with one line, written without \<open>split\<close>
  and without the indexing of its parts: the test the loop applies to the line, which is
  \<open>line.upper().startswith("VAR ")\<close> with a space character after the keyword, then two
  parts at least; and the entry it stores for a line that passes, with the column that
  \<open>find\<close> gives. The section on the symbol table proves that the loop computes exactly
  the table of these lines.
\<close>

definition recorded_line :: "string \<Rightarrow> bool" where
  "recorded_line raw =
     (startswith (upper (strip raw)) ''VAR '' \<and> second_word (strip raw) \<noteq> [])"

definition recorded_entry :: "nat \<Rightarrow> string \<Rightarrow> string \<times> (int \<times> int \<times> string)" where
  "recorded_entry line_num raw =
     (second_word (strip raw),
      (int line_num, find (strip raw) (second_word (strip raw)), declared_value_text (strip raw)))"

definition recorded_of ::
  "(nat \<times> string) list \<Rightarrow> (string \<times> (int \<times> int \<times> string)) list" where
  "recorded_of numbered =
     map (\<lambda>(line_num, raw). recorded_entry line_num raw)
         (filter (\<lambda>(line_num, raw). recorded_line raw) numbered)"

definition recorded_entries :: "string list \<Rightarrow> (string \<times> (int \<times> int \<times> string)) list" where
  \<comment> \<open>the entries the loop stores, in document order\<close>
  "recorded_entries lines = recorded_of (enumerate 0 lines)"


section \<open>Declarations, as the specification words them\<close>

text \<open>
  The specification calls a line a declaration when the first word of the trimmed line
  equals the keyword \<open>VAR\<close> under case-insensitive comparison and a word follows it. The
  name is the second word, and the declared value text is the rest of the line, or
  \<open>undefined\<close> when nothing follows the name. These definitions follow those words, not
  the code.
\<close>

definition spec_declaration_line :: "string \<Rightarrow> bool" where
  "spec_declaration_line raw =
     (upper (first_word (strip raw)) = ''VAR'' \<and> second_word (strip raw) \<noteq> [])"

definition spec_declarations :: "string list \<Rightarrow> (nat \<times> string \<times> string) list" where
  \<comment> \<open>line number, name and declared value text of each declaration, in document order\<close>
  "spec_declarations lines =
     map (\<lambda>(line_num, raw).
            (line_num, second_word (strip raw), declared_value_text (strip raw)))
         (filter (\<lambda>(line_num, raw). spec_declaration_line raw) (enumerate 0 lines))"


section \<open>Queries on a document that has no snapshot\<close>

text \<open>
  C3, as the spec states it: with no snapshot for the document identifier, each of the
  three query resolvers returns an absent or empty value. The completion resolver does
  not: it leaves out the variables and still offers every keyword and every builtin.
\<close>

theorem completions_no_snapshot_counterexample:
  "(Map.empty :: document_states) ''file:///a.myopl'' = None
   \<and> length (completions Map.empty ''file:///a.myopl'') = 31
   \<and> completions Map.empty ''file:///a.myopl'' \<noteq> []"
  by (simp add: completions_def KEYWORDS_def BUILTIN_FUNCTIONS_def)

text \<open>
  C3, amended: with no snapshot for the document identifier, the definition and the
  hover resolver return no result, the completion resolver returns the keyword
  candidates followed by the builtin candidates and no variable, and none of the three
  raises.
\<close>

theorem no_snapshot_results:
  "states u = None \<Longrightarrow>
     definition_handler states u pos = Inr None \<and> hover states u pos = Inr None
     \<and> completions states u = map keyword_item KEYWORDS @ map builtin_item BUILTIN_FUNCTIONS"
  by (simp add: definition_handler_def hover_def completions_def)

theorem no_snapshot_results_witness:
  "(Map.empty :: document_states) ''file:///a.myopl'' = None
   \<and> definition_handler Map.empty ''file:///a.myopl'' (Position 0 0) = Inr None
   \<and> hover Map.empty ''file:///a.myopl'' (Position 0 0) = Inr None
   \<and> completions Map.empty ''file:///a.myopl''
       = map keyword_item KEYWORDS @ map builtin_item BUILTIN_FUNCTIONS"
  using no_snapshot_results [of Map.empty "''file:///a.myopl''" "Position 0 0"] by simp

section \<open>Columns of diagnostics and declarations\<close>

text \<open>
  C1: every identifier token that is not accepted gets one diagnostic whose range is the
  token's start and end column on its line. On the line \<open>"  foo"\<close> the token \<open>foo\<close> is at
  columns 2 to 5; the analyzer scans the stripped line and reports columns 0 to 3.
\<close>

theorem diagnostic_column_of_indented_line:
  "parse_document ''  foo'' =
     Inr ([], [\<lparr>diag_range = Range (Position 0 0) (Position 0 3),
                 message = ''Undefined identifier: '' @ [CHR 0x27] @ ''foo'' @ [CHR 0x27],
                 severity = Error, source = ''MyOPL''\<rparr>])
   \<and> finditer ''  foo'' = [(2, 5, ''foo'')]"
  by code_simp

text \<open>
  C4: the stored declaration column is the column of the declaration's name token, not
  of an earlier piece of the line that equals the name. On \<open>"VAR A = 1"\<close> the name token
  \<open>A\<close> is at column 4; the analyzer stores column 1, inside the keyword.
\<close>

theorem declaration_column_inside_keyword:
  "parse_document ''VAR A = 1'' = Inr ([(''A'', 0, 1, ''= 1'')], [])
   \<and> finditer ''VAR A = 1'' = [(0, 3, ''VAR''), (4, 5, ''A'')]"
  by code_simp

section \<open>Position queries beyond the last line\<close>

text \<open>
  C6: the definition and the hover resolver never raise, whatever the cursor position.
  After the text \<open>"print(1)\n"\<close> is opened the document has one line, and a query on
  line 1, where an editor puts the cursor after the final newline, raises IndexError in
  both resolvers.
\<close>

theorem position_query_beyond_last_line:
  "did_open Map.empty ''a'' ''print(1)\<newline>''
     = Inr ([''a'' \<mapsto> \<lparr>doc_text = ''print(1)\<newline>'', doc_variables = []\<rparr>], [])
   \<and> definition_handler [''a'' \<mapsto> \<lparr>doc_text = ''print(1)\<newline>'', doc_variables = []\<rparr>]
        ''a'' (Position 1 0) = Inl IndexError
   \<and> hover [''a'' \<mapsto> \<lparr>doc_text = ''print(1)\<newline>'', doc_variables = []\<rparr>]
        ''a'' (Position 1 0) = Inl IndexError"
proof -
  have parsed: "parse_document ''print(1)\<newline>'' = Inr ([], [])"
    by code_simp
  have lines: "getitem (splitlines True ''print(1)\<newline>'') (line (Position 1 0)) = Inl IndexError"
    by code_simp
  show ?thesis
    using parsed lines by (simp add: did_open_def definition_handler_def hover_def)
qed


section \<open>Matches of the identifier pattern\<close>

text \<open>
  A match ends where no word character follows, so the next match starts at least one
  character later: at most one match has the cursor between its start and its end, both
  included.
\<close>

lemma ident_start_word: "ident_start c \<Longrightarrow> is_word_char c"
  by (auto simp: ident_start_def ident_char_def is_word_char_def Let_def)

lemma ident_char_word: "ident_char c \<Longrightarrow> is_word_char c"
  by (simp add: is_word_char_def Let_def)

lemma match_at_SomeD:
  assumes "match_at s p = Some e"
  shows "p < e" and "e \<le> length s" and "e < length s \<Longrightarrow> \<not> is_word_char (s ! e)"
proof -
  define m where "m = length (takeWhile ident_char (drop (Suc p) s))"
  have eq: "match_at s p =
      (if word_boundary s p \<and> p < length s \<and> ident_start (s ! p)
       then List.find (word_boundary s) (rev [Suc p ..< Suc (Suc p + m)]) else None)"
    unfolding match_at_def m_def Let_def ..
  have guard: "word_boundary s p \<and> p < length s \<and> ident_start (s ! p)"
  proof (rule ccontr)
    assume "\<not> (word_boundary s p \<and> p < length s \<and> ident_start (s ! p))"
    then have "match_at s p = None" by (simp only: eq if_False)
    with assms show False by simp
  qed
  then have start: "p < length s" "ident_start (s ! p)" by simp_all
  have m_eq: "match_at s p = List.find (word_boundary s) (rev [Suc p ..< Suc (Suc p + m)])"
    unfolding eq using guard by (rule if_P)
  have found: "List.find (word_boundary s) (rev [Suc p ..< Suc (Suc p + m)]) = Some e"
    using assms unfolding m_eq .
  define xs where "xs = rev [Suc p ..< Suc (Suc p + m)]"
  from found obtain i where i: "i < length xs" "word_boundary s (xs ! i)" "e = xs ! i"
    unfolding find_Some_iff xs_def by blast
  have wb: "word_boundary s e" using i by simp
  have "e \<in> set xs" using i nth_mem by simp
  then have "e \<in> {Suc p ..< Suc (Suc p + m)}"
    unfolding xs_def by (simp only: set_rev set_upt)
  then have lo: "Suc p \<le> e" and hi: "e \<le> Suc p + m" by simp_all
  show "p < e" using lo by simp
  have mle: "m \<le> length s - Suc p"
    unfolding m_def using length_takeWhile_le [of ident_char "drop (Suc p) s"] by simp
  show le: "e \<le> length s" using hi mle start by simp
  have prev: "is_word_char (s ! (e - 1))"
  proof (cases "e = Suc p")
    case True
    then show ?thesis using start by (simp add: ident_start_word)
  next
    case False
    define k where "k = e - 1 - Suc p"
    from False lo hi have "k < m" unfolding k_def by simp
    then have kk: "k < length (takeWhile ident_char (drop (Suc p) s))"
      unfolding m_def .
    then have "takeWhile ident_char (drop (Suc p) s) ! k
                 \<in> set (takeWhile ident_char (drop (Suc p) s))"
      by (rule nth_mem)
    then have ic: "ident_char (takeWhile ident_char (drop (Suc p) s) ! k)"
      by (rule set_takeWhileD [THEN conjunct2])
    have "takeWhile ident_char (drop (Suc p) s) ! k = drop (Suc p) s ! k"
      using kk by (rule takeWhile_nth)
    also have "\<dots> = s ! (Suc p + k)"
      using start by simp
    finally have "takeWhile ident_char (drop (Suc p) s) ! k = s ! (Suc p + k)" .
    moreover have "Suc p + k = e - 1"
      using False lo unfolding k_def by simp
    moreover note ic
    ultimately show ?thesis by (simp add: ident_char_word)
  qed
  show "\<not> is_word_char (s ! e)" if "e < length s"
    using wb prev lo that by (simp add: word_boundary_def)
qed

lemma match_at_end_None: "match_at s p = Some e \<Longrightarrow> match_at s e = None"
  using match_at_SomeD(3) [of s p e]
  by (auto simp: match_at_def [of s e] ident_start_word)

lemma finditer_from_start: "m \<in> set (finditer_from s pos) \<Longrightarrow> pos \<le> fst m"
proof (induction s pos rule: finditer_from.induct)
  case (1 s pos)
  show ?case
  proof (cases "length s < pos")
    case True
    with 1 show ?thesis by (simp add: finditer_from.simps [of s pos])
  next
    case False
    show ?thesis
    proof (cases "match_at s pos")
      case None
      with False 1 show ?thesis
        by (fastforce simp: finditer_from.simps [of s pos])
    next
      case (Some e)
      with False 1 show ?thesis
        by (fastforce simp: finditer_from.simps [of s pos])
    qed
  qed
qed

lemma finditer_from_after_match:
  assumes "match_at s p = Some e" and "m \<in> set (finditer_from s e)"
  shows "e < fst m"
proof -
  have "e \<le> length s" using assms(1) by (rule match_at_SomeD)
  then have "finditer_from s e = finditer_from s (Suc e)"
    using match_at_end_None [OF assms(1)] by (simp add: finditer_from.simps [of s e])
  with assms(2) have "Suc e \<le> fst m" using finditer_from_start by metis
  then show ?thesis by simp
qed

lemma separated_finditer_from:
  "sorted_wrt (\<lambda>m m'. fst (snd m) < fst m') (finditer_from s pos)"
proof (induction s pos rule: finditer_from.induct)
  case (1 s pos)
  show ?case
  proof (cases "length s < pos")
    case True
    then show ?thesis by (simp add: finditer_from.simps [of s pos])
  next
    case False
    show ?thesis
    proof (cases "match_at s pos")
      case None
      with False 1 show ?thesis by (simp add: finditer_from.simps [of s pos])
    next
      case (Some e)
      have "pos < e" using Some by (rule match_at_SomeD)
      then have mx: "max e (Suc pos) = e" by simp
      have "\<forall>m' \<in> set (finditer_from s e). e < fst m'"
        using finditer_from_after_match [OF Some] by simp
      moreover have "sorted_wrt (\<lambda>m m'. fst (snd m) < fst m') (finditer_from s e)"
        using 1(2) [OF False Some] mx by simp
      ultimately show ?thesis
        using False Some mx by (simp add: finditer_from.simps [of s pos])
    qed
  qed
qed

lemma separated_finditer: "sorted_wrt (\<lambda>m m'. fst (snd m) < fst m') (finditer s)"
  by (simp add: finditer_def separated_finditer_from)

lemma definition_scan_no_bracket:
  "\<forall>m' \<in> set ms. \<not> brackets pos m' \<Longrightarrow> definition_scan u vars pos ms = None"
  by (induction ms) simp_all

lemma definition_scan_bracket:
  assumes "sorted_wrt (\<lambda>m m'. fst (snd m) < fst m') ms"
    and "(start, stop, word) \<in> set ms" and "brackets pos (start, stop, word)"
  shows "definition_scan u vars pos ms =
           (case map_of vars word of
              Some (line_num, col, _) \<Rightarrow>
                Some \<lparr>uri = u,
                      loc_range = Range (Position line_num col)
                                        (Position line_num (col + int (length word)))\<rparr>
            | None \<Rightarrow> None)"
  using assms
proof (induction ms)
  case Nil
  then show ?case by simp
next
  case (Cons m0 ms)
  show ?case
  proof (cases "(start, stop, word) = m0")
    case True
    have "\<forall>m' \<in> set ms. \<not> brackets pos m'"
      using True Cons.prems(1,3) by (auto simp: brackets_def)
    then have "definition_scan u vars pos ms = None"
      by (rule definition_scan_no_bracket)
    then show ?thesis
      using True [symmetric] Cons.prems(3) by (simp split: option.splits)
  next
    case False
    then have mem: "(start, stop, word) \<in> set ms" using Cons.prems(2) by auto
    then have "\<not> brackets pos m0"
      using Cons.prems(1,3) by (auto simp: brackets_def)
    then show ?thesis using Cons.IH mem Cons.prems by simp
  qed
qed

lemma hover_scan_no_bracket:
  "\<forall>m' \<in> set ms. \<not> brackets pos m' \<Longrightarrow> hover_scan vars pos ms = None"
  by (induction ms) simp_all

lemma hover_scan_bracket:
  assumes "sorted_wrt (\<lambda>m m'. fst (snd m) < fst m') ms"
    and "(start, stop, word) \<in> set ms" and "brackets pos (start, stop, word)"
  shows "hover_scan vars pos ms =
     (case map_of vars word of
        Some (_, _, var_value) \<Rightarrow> Some (variable_hover pos (start, stop, word) var_value)
      | None \<Rightarrow>
         (case map_of BUILTIN_FUNCTIONS word of
            Some description \<Rightarrow> Some (builtin_hover word description)
          | None \<Rightarrow>
              if upper word \<in> set KEYWORDS then Some (keyword_hover word) else None))"
  using assms
proof (induction ms)
  case Nil
  then show ?case by simp
next
  case (Cons m0 ms)
  show ?case
  proof (cases "(start, stop, word) = m0")
    case True
    have "\<forall>m' \<in> set ms. \<not> brackets pos m'"
      using True Cons.prems(1,3) by (auto simp: brackets_def)
    then have "hover_scan vars pos ms = None"
      by (rule hover_scan_no_bracket)
    then show ?thesis
      using True [symmetric] Cons.prems(3) by (simp split: option.splits)
  next
    case False
    then have mem: "(start, stop, word) \<in> set ms" using Cons.prems(2) by auto
    then have "\<not> brackets pos m0"
      using Cons.prems(1,3) by (auto simp: brackets_def)
    then show ?thesis using Cons.IH mem Cons.prems by simp
  qed
qed

lemma hover_at_token:
  assumes "states u = Some st"
    and "getitem (splitlines True (doc_text st)) (line pos) = Inr ln"
    and "(start, stop, word) \<in> set (finditer ln)"
    and "int start \<le> character pos" and "character pos \<le> int stop"
  shows "hover states u pos = Inr
     (case map_of (doc_variables st) word of
        Some (_, _, var_value) \<Rightarrow> Some (variable_hover pos (start, stop, word) var_value)
      | None \<Rightarrow>
         (case map_of BUILTIN_FUNCTIONS word of
            Some description \<Rightarrow> Some (builtin_hover word description)
          | None \<Rightarrow>
              if upper word \<in> set KEYWORDS then Some (keyword_hover word) else None))"
proof -
  have "brackets pos (start, stop, word)"
    using assms(4,5) by (simp add: brackets_def)
  from hover_scan_bracket [OF separated_finditer assms(3) this]
  show ?thesis using assms(1,2) by (simp add: hover_def)
qed


section \<open>The definition resolver\<close>

text \<open>
  C7: when the identifier token whose span holds the cursor is the name of a declared
  Symbol of the snapshot, the definition resolver returns the stored declaration
  position as a location from the stored column to that column plus the length of the
  name; when the token is no declared Symbol, it returns no result.
\<close>

theorem definition_of_token_under_cursor:
  assumes "states u = Some st"
    and "getitem (splitlines True (doc_text st)) (line pos) = Inr ln"
    and "(start, stop, word) \<in> set (finditer ln)"
    and "int start \<le> character pos" and "character pos \<le> int stop"
  shows "definition_handler states u pos =
           Inr (case map_of (doc_variables st) word of
                  Some (line_num, col, _) \<Rightarrow>
                    Some \<lparr>uri = u,
                          loc_range = Range (Position line_num col)
                                            (Position line_num (col + int (length word)))\<rparr>
                | None \<Rightarrow> None)"
proof -
  have "brackets pos (start, stop, word)"
    using assms(4,5) by (simp add: brackets_def)
  from definition_scan_bracket [OF separated_finditer assms(3) this]
  show ?thesis using assms(1,2) by (simp add: definition_handler_def)
qed


theorem definition_of_token_under_cursor_witness:
  "getitem (splitlines True ''VAR age = 10\<newline>print(age)'') (line (Position 1 7)) = Inr ''print(age)''
   \<and> (6, 9, ''age'') \<in> set (finditer ''print(age)'')
   \<and> definition_handler
        [''a'' \<mapsto> \<lparr>doc_text = ''VAR age = 10\<newline>print(age)'',
                   doc_variables = [(''age'', 0, 4, ''= 10'')]\<rparr>]
        ''a'' (Position 1 7)
       = Inr (Some \<lparr>uri = ''a'', loc_range = Range (Position 0 4) (Position 0 7)\<rparr>)"
proof -
  let ?st = "\<lparr>doc_text = ''VAR age = 10\<newline>print(age)'',
              doc_variables = [(''age'', 0, 4, ''= 10'')]\<rparr>"
  have h1: "[''a'' \<mapsto> ?st] ''a'' = Some ?st" by simp
  have ln: "getitem (splitlines True ''VAR age = 10\<newline>print(age)'') 1 = Inr ''print(age)''"
    by code_simp
  then have h2: "getitem (splitlines True (doc_text ?st)) (line (Position 1 7)) = Inr ''print(age)''"
    by (simp add: Position_def)
  have "finditer ''print(age)'' = [(0, 5, ''print''), (6, 9, ''age'')]"
    by code_simp
  then have h3: "(6, 9, ''age'') \<in> set (finditer ''print(age)'')" by simp
  have h4: "int 6 \<le> character (Position 1 7)" and h5: "character (Position 1 7) \<le> int 9"
    by (simp_all add: Position_def)
  from definition_of_token_under_cursor
         [of "[''a'' \<mapsto> ?st]" "''a''" "?st" "Position 1 7" "''print(age)''" 6 9 "''age''",
          OF h1 h2 h3 h4 h5]
  have "definition_handler [''a'' \<mapsto> ?st] ''a'' (Position 1 7)
          = Inr (Some \<lparr>uri = ''a'', loc_range = Range (Position 0 4) (Position 0 7)\<rparr>)"
    by simp
  with h2 h3 show ?thesis by simp
qed


section \<open>The hover resolver\<close>

text \<open>
  C8: with a token under the cursor, the hover resolver tries the declared Symbols, then
  the builtin functions, then the keywords (compared in upper case), and returns the
  first that matches: the Symbol's name and stored value text, or the builtin's
  description, or the keyword in upper case. A token that is a declared Symbol shows the
  Symbol only, whatever else it is.
\<close>

theorem hover_priority:
  assumes "states u = Some st"
    and "getitem (splitlines True (doc_text st)) (line pos) = Inr ln"
    and "(start, stop, word) \<in> set (finditer ln)"
    and "int start \<le> character pos" and "character pos \<le> int stop"
  shows "map_sum id (map_option (\<lambda>h. (kind (contents h), markup_value (contents h))))
           (hover states u pos)
         = Inr (case map_of (doc_variables st) word of
                  Some (_, _, var_value) \<Rightarrow>
                    Some (Markdown, ''**Variable**: `'' @ word @ ''`\<newline>\<newline>**Value**: `''
                                    @ var_value @ ''`'')
                | None \<Rightarrow>
                   (case map_of BUILTIN_FUNCTIONS word of
                      Some description \<Rightarrow>
                        Some (Markdown, ''**Built-in function**: `'' @ word @ ''`\<newline>\<newline>''
                                        @ description)
                    | None \<Rightarrow>
                        if upper word \<in> set KEYWORDS
                        then Some (Markdown, ''**Keyword**: `'' @ upper word @ ''`'')
                        else None))"
  unfolding hover_at_token [of states u st pos ln start stop word, OF assms]
  by (simp add: variable_hover_def builtin_hover_def keyword_hover_def split: option.splits)


theorem hover_priority_witness:
  "getitem (splitlines True ''VAR print = 1\<newline>print(2)'') (line (Position 1 2)) = Inr ''print(2)''
   \<and> (0, 5, ''print'') \<in> set (finditer ''print(2)'')
   \<and> map_of BUILTIN_FUNCTIONS ''print'' = Some ''Prints the given values''
   \<and> map_sum id (map_option (\<lambda>h. (kind (contents h), markup_value (contents h))))
         (hover [''a'' \<mapsto> \<lparr>doc_text = ''VAR print = 1\<newline>print(2)'',
                          doc_variables = [(''print'', 0, 4, ''= 1'')]\<rparr>]
                ''a'' (Position 1 2))
       = Inr (Some (Markdown, ''**Variable**: `print`\<newline>\<newline>**Value**: `= 1`''))"
proof -
  let ?st = "\<lparr>doc_text = ''VAR print = 1\<newline>print(2)'',
              doc_variables = [(''print'', 0, 4, ''= 1'')]\<rparr>"
  have h1: "[''a'' \<mapsto> ?st] ''a'' = Some ?st" by simp
  have ln: "getitem (splitlines True ''VAR print = 1\<newline>print(2)'') 1 = Inr ''print(2)''"
    by code_simp
  then have h2: "getitem (splitlines True (doc_text ?st)) (line (Position 1 2)) = Inr ''print(2)''"
    by (simp add: Position_def)
  have "finditer ''print(2)'' = [(0, 5, ''print'')]"
    by code_simp
  then have h3: "(0, 5, ''print'') \<in> set (finditer ''print(2)'')" by simp
  have h4: "int 0 \<le> character (Position 1 2)" and h5: "character (Position 1 2) \<le> int 5"
    by (simp_all add: Position_def)
  have b: "map_of BUILTIN_FUNCTIONS ''print'' = Some ''Prints the given values''"
    by (simp add: BUILTIN_FUNCTIONS_def)
  from hover_priority
         [of "[''a'' \<mapsto> ?st]" "''a''" "?st" "Position 1 2" "''print(2)''" 0 5 "''print''",
          OF h1 h2 h3 h4 h5]
  have "map_sum id (map_option (\<lambda>h. (kind (contents h), markup_value (contents h))))
          (hover [''a'' \<mapsto> ?st] ''a'' (Position 1 2))
        = Inr (Some (Markdown, ''**Variable**: `print`\<newline>\<newline>**Value**: `= 1`''))"
    by simp
  with h2 h3 b show ?thesis by simp
qed

text \<open>
  C10: with a token under the cursor, the hover result carries a range exactly when the
  token is a declared Symbol, and the range is the token's start and end column on the
  cursor's line; the hover of a builtin function or of a keyword has no range.
\<close>

theorem hover_range_only_for_symbols:
  assumes "states u = Some st"
    and "getitem (splitlines True (doc_text st)) (line pos) = Inr ln"
    and "(start, stop, word) \<in> set (finditer ln)"
    and "int start \<le> character pos" and "character pos \<le> int stop"
  shows "map_sum id (map_option hover_range) (hover states u pos)
         = Inr (if word \<in> set (map fst (doc_variables st))
                then Some (Some (Range (Position (line pos) (int start))
                                       (Position (line pos) (int stop))))
                else if word \<in> set (map fst BUILTIN_FUNCTIONS) \<or> upper word \<in> set KEYWORDS
                then Some None
                else None)"
proof -
  have v: "word \<in> set (map fst (doc_variables st)) \<longleftrightarrow> map_of (doc_variables st) word \<noteq> None"
    by (simp add: map_of_eq_None_iff)
  have b: "word \<in> set (map fst BUILTIN_FUNCTIONS) \<longleftrightarrow> map_of BUILTIN_FUNCTIONS word \<noteq> None"
    by (simp add: map_of_eq_None_iff)
  show ?thesis
    unfolding hover_at_token [of states u st pos ln start stop word, OF assms] v b
    by (auto simp: variable_hover_def builtin_hover_def keyword_hover_def split: option.splits)
qed

theorem hover_range_only_for_symbols_witness:
  "getitem (splitlines True ''VAR age = 10\<newline>print(age)'') (line (Position 1 7)) = Inr ''print(age)''
   \<and> (6, 9, ''age'') \<in> set (finditer ''print(age)'')
   \<and> map_sum id (map_option hover_range)
         (hover [''a'' \<mapsto> \<lparr>doc_text = ''VAR age = 10\<newline>print(age)'',
                          doc_variables = [(''age'', 0, 4, ''= 10'')]\<rparr>]
                ''a'' (Position 1 7))
       = Inr (Some (Some (Range (Position 1 6) (Position 1 9))))"
proof -
  let ?st = "\<lparr>doc_text = ''VAR age = 10\<newline>print(age)'',
              doc_variables = [(''age'', 0, 4, ''= 10'')]\<rparr>"
  have h1: "[''a'' \<mapsto> ?st] ''a'' = Some ?st" by simp
  have ln: "getitem (splitlines True ''VAR age = 10\<newline>print(age)'') 1 = Inr ''print(age)''"
    by code_simp
  then have h2: "getitem (splitlines True (doc_text ?st)) (line (Position 1 7)) = Inr ''print(age)''"
    by (simp add: Position_def)
  have "finditer ''print(age)'' = [(0, 5, ''print''), (6, 9, ''age'')]"
    by code_simp
  then have h3: "(6, 9, ''age'') \<in> set (finditer ''print(age)'')" by simp
  have h4: "int 6 \<le> character (Position 1 7)" and h5: "character (Position 1 7) \<le> int 9"
    by (simp_all add: Position_def)
  from hover_range_only_for_symbols
         [of "[''a'' \<mapsto> ?st]" "''a''" "?st" "Position 1 7" "''print(age)''" 6 9 "''age''",
          OF h1 h2 h3 h4 h5]
  have "map_sum id (map_option hover_range) (hover [''a'' \<mapsto> ?st] ''a'' (Position 1 7))
        = Inr (Some (Some (Range (Position 1 6) (Position 1 9))))"
    by (simp add: Position_def)
  with h2 h3 show ?thesis by simp
qed

section \<open>The symbol table\<close>

text \<open>
  The first loop of \<open>parse_document\<close> never raises: inside its test \<open>split\<close> gives two
  parts at least when \<open>parts[1]\<close> is read, and three when \<open>parts[2]\<close> is read.
\<close>

lemma declaration_step_total: "\<exists>vars'. declaration_step vars line_num raw = Inr vars'"
  by (auto simp: declaration_step_def Let_def getitem_def)

lemma collect_variables_total: "\<exists>vars'. collect_variables vars numbered = Inr vars'"
proof (induction numbered arbitrary: vars)
  case Nil
  show ?case by simp
next
  case (Cons x rest)
  obtain n raw where x: "x = (n, raw)" by (cases x)
  obtain vars1 where step: "declaration_step vars n raw = Inr vars1"
    using declaration_step_total by blast
  from Cons.IH [of vars1] obtain vars' where "collect_variables vars1 rest = Inr vars'"
    by blast
  with step show ?case by (simp add: x)
qed

text \<open>
  The table the loop builds maps each name to the entry of the last line the loop
  records for that name.
\<close>

lemma first_word_Nil: "first_word l = [] \<longleftrightarrow> dropWhile isspace l = []"
proof
  assume "first_word l = []"
  then have "dropWhile isspace l = [] \<or> isspace (hd (dropWhile isspace l))"
    by (simp add: first_word_def takeWhile_eq_Nil_iff del: dropWhile_eq_Nil_conv)
  then show "dropWhile isspace l = []"
    using hd_dropWhile [of isspace l] by blast
next
  assume "dropWhile isspace l = []"
  then show "first_word l = []"
    by (simp add: first_word_def del: dropWhile_eq_Nil_conv)
qed

lemma second_word_Nil: "first_word l = [] \<Longrightarrow> second_word l = []"
proof -
  assume "first_word l = []"
  then have "dropWhile isspace l = []" by (simp only: first_word_Nil)
  then have "after_word l = []" by (simp add: after_word_def del: dropWhile_eq_Nil_conv)
  then show ?thesis by (simp add: second_word_def first_word_def)
qed

lemma split_ws_0: "split_ws 0 l = (if dropWhile isspace l = [] then [] else [dropWhile isspace l])"
  by (simp only: split_ws.simps Let_def)

lemma split_ws_Suc:
  "split_ws (Suc n) l = (if first_word l = [] then [] else first_word l # split_ws n (after_word l))"
proof -
  have "split_ws (Suc n) l =
          (if dropWhile isspace l = [] then [] else first_word l # split_ws n (after_word l))"
    by (simp only: split_ws.simps Let_def first_word_def after_word_def)
  then show ?thesis by (simp only: first_word_Nil)
qed

lemma split_ws_2:
  "split_ws 2 l =
     (if first_word l = [] then []
      else if second_word l = [] then [first_word l]
      else if rest_of_line l = [] then [first_word l, second_word l]
      else [first_word l, second_word l, rest_of_line l])"
proof -
  have two: "(2::nat) = Suc (Suc 0)" by simp
  show ?thesis
    unfolding two split_ws_Suc split_ws_0
    by (simp add: second_word_def rest_of_line_def del: dropWhile_eq_Nil_conv)
qed

lemma declaration_step_eq:
  "declaration_step vars n raw =
     Inr (if recorded_line raw
          then AList.update (fst (recorded_entry n raw)) (snd (recorded_entry n raw)) vars
          else vars)"
  using second_word_Nil [of "strip raw"]
  by (auto simp: declaration_step_def Let_def split_ws_2 getitem_def recorded_line_def
      recorded_entry_def declared_value_text_def)

lemma set_update_subset: "set (AList.update k v al) \<subseteq> insert (k, v) (set al)"
  by (induction al) auto

lemma collect_variables_eq:
  "\<exists>vars'. collect_variables vars numbered = Inr vars'
      \<and> map_of vars' = map_of vars ++ map_of (rev (recorded_of numbered))
      \<and> set vars' \<subseteq> set vars \<union> set (recorded_of numbered)
      \<and> (distinct (map fst vars) \<longrightarrow> distinct (map fst vars'))"
proof (induction numbered arbitrary: vars)
  case Nil
  then show ?case by (simp add: recorded_of_def)
next
  case (Cons x rest)
  obtain n raw where x: "x = (n, raw)" by (cases x)
  define vars1 where "vars1 = (if recorded_line raw
          then AList.update (fst (recorded_entry n raw)) (snd (recorded_entry n raw)) vars
          else vars)"
  have step: "declaration_step vars n raw = Inr vars1"
    by (simp add: declaration_step_eq vars1_def)
  from Cons.IH [of vars1] obtain vars' where
    run: "collect_variables vars1 rest = Inr vars'"
    and m: "map_of vars' = map_of vars1 ++ map_of (rev (recorded_of rest))"
    and sub: "set vars' \<subseteq> set vars1 \<union> set (recorded_of rest)"
    and dist: "distinct (map fst vars1) \<longrightarrow> distinct (map fst vars')"
    by blast
  have d: "recorded_of (x # rest) =
             (if recorded_line raw then [recorded_entry n raw] else [])
             @ recorded_of rest"
    by (simp add: recorded_of_def x)
  have m1: "map_of vars1 ++ map_of (rev (recorded_of rest))
              = map_of vars ++ map_of (rev (recorded_of (x # rest)))"
  proof (cases "recorded_line raw")
    case True
    obtain k v where kv: "recorded_entry n raw = (k, v)" by (cases "recorded_entry n raw")
    have "map_of vars1 = map_of vars ++ map_of [(k, v)]"
      using True kv by (simp add: vars1_def update_conv')
    then show ?thesis
      using True kv by (simp add: d)
  next
    case False
    then show ?thesis by (simp add: d vars1_def)
  qed
  have s1: "set vars1 \<subseteq> set vars \<union> set (recorded_of (x # rest))"
    using set_update_subset [of "fst (recorded_entry n raw)" "snd (recorded_entry n raw)" vars]
    by (auto simp: vars1_def d)
  have d1: "distinct (map fst vars) \<longrightarrow> distinct (map fst vars1)"
    by (simp add: vars1_def distinct_update)
  have "collect_variables vars (x # rest) = Inr vars'"
    using step run by (simp add: x)
  moreover have "set vars' \<subseteq> set vars \<union> set (recorded_of (x # rest))"
    using sub s1 d by auto
  ultimately show ?case using m m1 dist d1 by auto
qed

lemma parse_document_eq:
  "\<exists>vars. parse_document text =
            Inr (vars, concat (map (\<lambda>(line_num, raw). validate_line vars line_num raw)
                                   (enumerate 0 (splitlines False text))))
      \<and> map_of vars = map_of (rev (recorded_entries (splitlines False text)))
      \<and> set vars \<subseteq> set (recorded_entries (splitlines False text))
      \<and> distinct (map fst vars)"
proof -
  from collect_variables_eq [of "[]" "enumerate 0 (splitlines False text)"]
  have "\<exists>vars. collect_variables [] (enumerate 0 (splitlines False text)) = Inr vars
          \<and> map_of vars = map_of (rev (recorded_entries (splitlines False text)))
          \<and> set vars \<subseteq> set (recorded_entries (splitlines False text))
          \<and> distinct (map fst vars)"
    by (simp add: recorded_entries_def)
  then obtain vars where
    run: "collect_variables [] (enumerate 0 (splitlines False text)) = Inr vars"
    and m: "map_of vars = map_of (rev (recorded_entries (splitlines False text)))"
    and sub: "set vars \<subseteq> set (recorded_entries (splitlines False text))"
    and dist: "distinct (map fst vars)"
    by blast
  have "parse_document text =
          Inr (vars, concat (map (\<lambda>(line_num, raw). validate_line vars line_num raw)
                                 (enumerate 0 (splitlines False text))))"
    using run by (simp add: parse_document_def Let_def)
  moreover note m sub dist
  ultimately show ?thesis by blast
qed

lemma undefined_message_inject: "undefined_message v = undefined_message w \<Longrightarrow> v = w"
  by (simp add: undefined_message_def)

lemma validate_line_message:
  assumes "d \<in> set (validate_line vars line_num raw)"
  shows "\<exists>word. message d = undefined_message word \<and> \<not> accepted vars word"
proof -
  from assms obtain m where "d = undefined_identifier line_num m"
    and "\<not> accepted vars (snd (snd m))"
    by (auto simp: validate_line_def Let_def split: if_splits)
  then show ?thesis
    by (cases m) (auto simp: undefined_identifier_def undefined_message_def)
qed

lemma declared_name_not_diagnosed:
  assumes "parse_document text = Inr (vars, diags)" and "name \<in> fst ` set vars"
  shows "filter (\<lambda>d. message d = undefined_message name) diags = []"
proof -
  have acc: "accepted vars name"
    using assms(2) by (simp add: accepted_def valid_identifiers_def)
  have "message d \<noteq> undefined_message name" if "d \<in> set diags" for d
  proof -
    from assms(1) that obtain line_num raw where "d \<in> set (validate_line vars line_num raw)"
      by (auto simp: parse_document_def Let_def split: sum.splits)
    then obtain word where w: "message d = undefined_message word" "\<not> accepted vars word"
      using validate_line_message by blast
    with acc have "word \<noteq> name" by blast
    with w show ?thesis using undefined_message_inject by metis
  qed
  then show ?thesis by (simp add: filter_empty_conv)
qed

lemma last_recorded_line_wins:
  assumes "parse_document text = Inr (vars, diags)"
    and "recorded_entries (splitlines False text) = earlier @ (name, entry) # later"
    and "name \<notin> set (map fst later)"
  shows "distinct (map fst vars) \<and> map_of vars name = Some entry
         \<and> filter (\<lambda>d. message d = undefined_message name) diags = []"
proof -
  from parse_document_eq [of "text"] assms(1)
  have m: "map_of vars = map_of (rev (recorded_entries (splitlines False text)))"
    and dist: "distinct (map fst vars)"
    by auto
  have "map_of (rev later) name = None"
    using assms(3) by (simp add: map_of_eq_None_iff)
  then have stored: "map_of vars name = Some entry"
    by (simp add: m assms(2) map_add_def)
  then have "name \<in> fst ` set vars"
    by (metis map_of_eq_None_iff option.distinct(1))
  from declared_name_not_diagnosed [OF assms(1) this] dist stored
  show ?thesis by simp
qed

lemma table_of_recorded_lines:
  assumes "parse_document text = Inr (vars, diags)"
  shows "set (map fst vars) = set (map fst (recorded_entries (splitlines False text)))
         \<and> set vars \<subseteq> set (recorded_entries (splitlines False text))"
proof -
  from parse_document_eq [of "text"] assms
  have m: "map_of vars = map_of (rev (recorded_entries (splitlines False text)))"
    and sub: "set vars \<subseteq> set (recorded_entries (splitlines False text))"
    by auto
  from m have "dom (map_of vars) = dom (map_of (rev (recorded_entries (splitlines False text))))"
    by simp
  then have "fst ` set vars = fst ` set (recorded_entries (splitlines False text))"
    by (simp add: dom_map_of_conv_image_fst)
  with sub show ?thesis by simp
qed


section \<open>The keyword and the character after it\<close>

text \<open>
  C5: every line whose trimmed form has the first word \<open>VAR\<close>, in any letter case, and a
  word after it records a Symbol named by the second word, with the rest of the line as
  its declared value text. The line \<open>"VAR\tx 5"\<close>, with a tab after the keyword, is such a
  line: by the words of the specification it declares \<open>x\<close> with the value text \<open>5\<close>. For
  it \<open>parse_document\<close> returns an empty symbol table and reports \<open>x\<close> as undefined on the
  line that declares it. The first loop tests for a space character after the keyword,
  and then splits the same line on any whitespace.
\<close>

theorem declaration_after_tab_not_recorded:
  "spec_declarations (splitlines False (''VAR'' @ [CHR 0x09] @ ''x 5'')) = [(0, ''x'', ''5'')]
   \<and> parse_document (''VAR'' @ [CHR 0x09] @ ''x 5'')
       = Inr ([], [\<lparr>diag_range = Range (Position 0 4) (Position 0 5),
                    message = undefined_message ''x'', severity = Error,
                    source = ''MyOPL''\<rparr>])"
  by code_simp

text \<open>
  C2: when a name is declared on several lines, the stored position and declared value
  text are those of the last declaration in document order. In the text
  \<open>"VAR x 1\nVAR\tx 2"\<close> the name \<open>x\<close> is declared on line 0 with the value text \<open>1\<close> and
  again on line 1 with the value text \<open>2\<close>. The symbol table of \<open>parse_document\<close> holds
  one Symbol for \<open>x\<close>, with the line and the value text of the first declaration: the
  second one, with a tab after the keyword, is not recorded.
\<close>

theorem redeclaration_after_tab_keeps_first:
  "spec_declarations (splitlines False (''VAR x 1\<newline>VAR'' @ [CHR 0x09] @ ''x 2''))
     = [(0, ''x'', ''1''), (1, ''x'', ''2'')]
   \<and> parse_document (''VAR x 1\<newline>VAR'' @ [CHR 0x09] @ ''x 2'')
       = Inr ([(''x'', 0, 4, ''1'')], [])"
  by code_simp


section \<open>The analyzer as a function of the text\<close>

text \<open>
  C9: \<open>parse_document\<close> raises on no text, and its result depends on the text alone:
  whatever the store holds, opening or changing a document stores the same symbol table
  and publishes the same diagnostics, in the same order, for the same text.
\<close>

theorem parse_document_total:
  "\<exists>vars diagnostics. parse_document text = Inr (vars, diagnostics)
      \<and> (\<forall>states u.
            did_open states u text
              = Inr (states(u \<mapsto> \<lparr>doc_text = text, doc_variables = vars\<rparr>), diagnostics)
          \<and> did_change states u text
              = Inr (states(u \<mapsto> \<lparr>doc_text = text, doc_variables = vars\<rparr>), diagnostics))"
proof -
  obtain vars where "collect_variables [] (enumerate 0 (splitlines False text)) = Inr vars"
    using collect_variables_total by blast
  then have "\<exists>diagnostics. parse_document text = Inr (vars, diagnostics)"
    by (simp add: parse_document_def Let_def)
  then show ?thesis by (auto simp: did_open_def did_change_def)
qed


end
